theory Spec2Isabelle
  imports Complex_Main
begin

section \<open>The embedding cache of \<^verbatim>\<open>helpers/caching/vae.py\<close>\<close>

text \<open>
  The class \<^verbatim>\<open>VAECache\<close> derives a cache key from an image path, discovers the
  images that have no cache entry, encodes batches of images with a VAE and writes the
  latents through a storage backend. The definitions below follow the Python source
  function by function. Exceptions are values, the storage backend is an explicit state,
  and the calls of the VAE and of \<^verbatim>\<open>write_batch\<close> are recorded in a trace.
\<close>

subsection \<open>Python's \<^verbatim>\<open>os.path\<close> (POSIX flavour)\<close>

text \<open>\<^verbatim>\<open>str.rfind\<close> for a one-character needle: the highest index, or -1.\<close>

fun rfind :: "string \<Rightarrow> char \<Rightarrow> int" where
  "rfind [] c = - 1"
| "rfind (x # xs) c =
     (let r = rfind xs c in if 0 \<le> r then r + 1 else if x = c then 0 else - 1)"

text \<open>\<^verbatim>\<open>posixpath.basename\<close>: \<^verbatim>\<open>i = p.rfind('/') + 1; return p[i:]\<close>.\<close>

definition basename :: "string \<Rightarrow> string" where
  "basename p = drop (nat (rfind p CHR ''/'' + 1)) p"

text \<open>
  \<^verbatim>\<open>posixpath.splitext\<close> (\<^verbatim>\<open>genericpath._splitext\<close>): the extension starts at the last
  dot, provided that the dot comes after the last separator and that some character
  between the separator and the dot is not a dot (leading dots do not start an
  extension).
\<close>

definition splitext :: "string \<Rightarrow> string \<times> string" where
  "splitext p =
     (let sepIndex = rfind p CHR ''/'';
          dotIndex = rfind p CHR ''.''
      in if sepIndex < dotIndex \<and>
            list_ex (\<lambda>i. p ! i \<noteq> CHR ''.'') [nat (sepIndex + 1) ..< nat dotIndex]
         then (take (nat dotIndex) p, drop (nat dotIndex) p)
         else (p, []))"

text \<open>\<^verbatim>\<open>posixpath.join\<close> of two components.\<close>

definition join :: "string \<Rightarrow> string \<Rightarrow> string" where
  "join a b =
     (if take 1 b = ''/'' then b
      else if a = [] \<or> last a = CHR ''/'' then a @ b
      else a @ ''/'' @ b)"

subsection \<open>Exceptions, tensors, the VAE and the storage backend\<close>

text \<open>
  The exception classes that the code raises or catches. \<open>OSError\<close> and
  \<open>RuntimeError\<close> stand for the two classes of the \<^verbatim>\<open>except\<close> clause of
  \<^verbatim>\<open>process_directory\<close> with their subclasses; \<open>ValueError\<close> and \<open>UnpicklingError\<close>
  are classes outside both hierarchies.
\<close>

datatype exn = OSError | RuntimeError | IndexError | AttributeError | ValueError | UnpicklingError

text \<open>
  A row of a batch tensor, the latent of one image, is a one-dimensional tensor: the list
  of its numbers, whose shape is its length. A batch tensor is the list of its rows, and
  \<^verbatim>\<open>torch.stack\<close> builds that list. Devices and the rounding of the floating-point type are
  not modelled, and \<^verbatim>\<open>squeeze\<close> and \<^verbatim>\<open>to\<close> keep the numbers of a row.
\<close>

type_synonym latent = "real list"

text \<open>
  The VAE is a parameter of the cache: \<open>encode\<close> is
  \<^verbatim>\<open>vae.encode(batch).latent_dist.sample()\<close> as a function of the batch, and
  \<open>scaling_factor\<close> is \<^verbatim>\<open>vae.config.scaling_factor\<close>.
\<close>

record 'p vae_model =
  encode :: "'p list \<Rightarrow> latent list"
  scaling_factor :: real

text \<open>The fields of a \<^verbatim>\<open>VAECache\<close> object. \<open>local_unprocessed_files\<close> is \<open>None\<close> until
  \<^verbatim>\<open>split_cache_between_processes\<close> sets the attribute.\<close>

record 'p VAECache =
  vae :: "'p vae_model"
  cache_dir :: string
  resolution :: int
  delete_problematic_images :: bool
  write_batch_size :: int
  local_unprocessed_files :: "string list option"

subsection \<open>Cache keys\<close>

definition generate_filename :: "'p VAECache \<Rightarrow> string \<Rightarrow> string \<times> string" where
  "generate_filename self filepath =
     (let base_filename = fst (splitext (basename filepath)) @ ''.pt'';
          full_filename = join (cache_dir self) base_filename
      in (full_filename, base_filename))"

text \<open>
  The words of the specification, for comparison with the code: strip the directory path,
  strip the extension, append the fixed suffix, place the name under the root.
\<close>

definition strip_directory :: "string \<Rightarrow> string" where
  "strip_directory p = rev (takeWhile (\<lambda>ch. ch \<noteq> CHR ''/'') (rev p))"

definition strip_extension :: "string \<Rightarrow> string" where
  "strip_extension n =
     (let stem = rev (drop 1 (dropWhile (\<lambda>ch. ch \<noteq> CHR ''.'') (rev n)))
      in if CHR ''.'' \<in> set n \<and> list_ex (\<lambda>ch. ch \<noteq> CHR ''.'') stem then stem else n)"

definition under_root :: "string \<Rightarrow> string \<Rightarrow> string" where
  "under_root namespace name =
     (if namespace = [] \<or> last namespace = CHR ''/'' then namespace @ name
      else namespace @ ''/'' @ name)"

definition spec_cache_key :: "string \<Rightarrow> string \<Rightarrow> string \<times> string" where
  "spec_cache_key namespace identity =
     (under_root namespace (strip_extension (strip_directory identity) @ ''.pt''),
      strip_extension (strip_directory identity) @ ''.pt'')"


subsection \<open>The storage backend\<close>

text \<open>
  Modelled from the spec: the Storage Backend (class \<^verbatim>\<open>BaseDataBackend\<close> of
  \<^verbatim>\<open>helpers/data_backend\<close>) is not among the sources. Section 6 of the specification
  gives its surface: \<^verbatim>\<open>listFiles\<close>, \<^verbatim>\<open>exists\<close>, \<^verbatim>\<open>readImage\<close>, \<^verbatim>\<open>writeBatch\<close>,
  \<^verbatim>\<open>delete\<close> and the (de)serialisation of an embedding. A stored item is an image or a
  serialised tensor. An image carries the outcome of lines 156-160 of
  \<^verbatim>\<open>process_directory\<close> on it (\<^verbatim>\<open>read_image\<close>, \<^verbatim>\<open>MultiaspectImage.prepare_image\<close> and the
  tensor transform, all external): the pixel values, or the exception raised.
\<close>

datatype 'p blob = ImageFile "exn + 'p" | TensorFile latent

text \<open>
  Modelled from the spec: the state of the backend. \<open>files\<close> maps a path to the item
  stored there. \<open>list_files str_pattern instance_data_root\<close> is the sequence of
  \<^verbatim>\<open>(subdir, dirs, files)\<close> triples that \<^verbatim>\<open>list_files\<close> reports; it is a component of its
  own, so nothing is assumed about how a backend matches the pattern or walks the root,
  and \<^verbatim>\<open>write_batch\<close> and \<^verbatim>\<open>delete\<close> leave it as it is. The arguments are in the order of
  the positional call of line 50, the pattern first; lines 115 and 129 pass them by name.
\<close>

record 'p data_backend =
  files :: "string \<Rightarrow> 'p blob option"
  list_files :: "string \<Rightarrow> string \<Rightarrow> (string \<times> string list \<times> string list) list"

text \<open>Modelled from the spec: \<^verbatim>\<open>exists(path)\<close>.\<close>

definition exists :: "'p data_backend \<Rightarrow> string \<Rightarrow> bool" where
  "exists be path = (files be path \<noteq> None)"

text \<open>
  Modelled from the spec: \<^verbatim>\<open>readImage(path)\<close> followed by the external decode and
  normalise steps. A missing path and a path that holds no image raise \<open>OSError\<close>
  (\<^verbatim>\<open>FileNotFoundError\<close>, \<^verbatim>\<open>PIL.UnidentifiedImageError\<close>).
\<close>

definition read_pixel_values :: "'p data_backend \<Rightarrow> string \<Rightarrow> exn + 'p" where
  "read_pixel_values be path =
     (case files be path of
        None \<Rightarrow> Inl OSError
      | Some (ImageFile r) \<Rightarrow> r
      | Some (TensorFile t) \<Rightarrow> Inl OSError)"

text \<open>Modelled from the spec: \<^verbatim>\<open>torch_load\<close>, the deserialisation of a stored embedding.\<close>

definition torch_load :: "'p data_backend \<Rightarrow> string \<Rightarrow> exn + latent" where
  "torch_load be path =
     (case files be path of
        None \<Rightarrow> Inl OSError
      | Some (ImageFile r) \<Rightarrow> Inl UnpicklingError
      | Some (TensorFile t) \<Rightarrow> Inr t)"

text \<open>
  Modelled from the spec: \<^verbatim>\<open>writeBatch(paths, payloads)\<close> persists the pairs in order,
  each write replacing what the path held.
\<close>

definition write_batch :: "'p data_backend \<Rightarrow> string list \<Rightarrow> latent list \<Rightarrow> 'p data_backend" where
  "write_batch be paths payloads =
     be\<lparr>files := fold (\<lambda>(path, payload) m. m(path \<mapsto> TensorFile payload))
                     (zip paths payloads) (files be)\<rparr>"

text \<open>Modelled from the spec: \<^verbatim>\<open>delete(path)\<close>.\<close>

definition delete :: "'p data_backend \<Rightarrow> string \<Rightarrow> 'p data_backend" where
  "delete be path = be\<lparr>files := (files be)(path := None)\<rparr>"

subsection \<open>\<^verbatim>\<open>load_from_cache\<close> and \<^verbatim>\<open>discover_unprocessed_files\<close>\<close>

definition load_from_cache :: "'p VAECache \<Rightarrow> 'p data_backend \<Rightarrow> string \<Rightarrow> exn + latent" where
  "load_from_cache self be filename = torch_load be filename"

text \<open>\<^verbatim>\<open>str.endswith\<close> with one suffix, and with a tuple of suffixes.\<close>

definition endswith :: "string \<Rightarrow> string \<Rightarrow> bool" where
  "endswith s suffix =
     (length suffix \<le> length s \<and> drop (length s - length suffix) s = suffix)"

definition endswith_any :: "string \<Rightarrow> string list \<Rightarrow> bool" where
  "endswith_any s suffixes = list_ex (endswith s) suffixes"

text \<open>
  Lines 48-55: the set \<^verbatim>\<open>all_files\<close>. A Python set is modelled by a list without
  duplicates; the order of the list has no counterpart in the source.
\<close>

definition all_files :: "'p data_backend \<Rightarrow> string \<Rightarrow> string list" where
  "all_files be directory =
     remdups [join subdir file.
              (subdir, dirs, fs) \<leftarrow> list_files be ''*.[jJpP][pPnN][gG]'' directory,
              file \<leftarrow> fs,
              endswith_any file [''.png'', ''.jpg'', ''.jpeg'']]"

definition discover_unprocessed_files ::
  "'p VAECache \<Rightarrow> 'p data_backend \<Rightarrow> string \<Rightarrow> string list" where
  "discover_unprocessed_files self be directory =
     (let processed_files = remdups (map (generate_filename self) (all_files be directory));
          unprocessed_files =
            [file \<leftarrow> all_files be directory.
             generate_filename self file \<notin> set processed_files]
      in unprocessed_files)"

subsection \<open>\<^verbatim>\<open>encode_image_batch\<close> and \<^verbatim>\<open>encode_image\<close>\<close>

text \<open>The calls that a run makes to the VAE and to \<^verbatim>\<open>write_batch\<close>, in order.\<close>

datatype 'p event = VaeEncode "'p list" | WriteBatch "string list" "latent list"

text \<open>
  Line 90, \<^verbatim>\<open>latents[i] = loaded\<close>, for a row that exists: torch copies the loaded tensor
  into the row and checks its shape first. A tensor of the row's shape replaces the
  numbers of the row, a tensor of one number is broadcast over the row, and any other
  shape raises \<open>RuntimeError\<close>. The result is the row after the assignment.
\<close>

definition setitem_row :: "latent \<Rightarrow> latent \<Rightarrow> exn + latent" where
  "setitem_row row loaded =
     (if length loaded = length row then Inr loaded
      else if length loaded = 1 then Inr (replicate (length row) (loaded ! 0))
      else Inl RuntimeError)"

text \<open>
  Lines 87-96, the loop over \<^verbatim>\<open>enumerate(filepaths)\<close>. \<open>i\<close> is the index, \<open>latents\<close> the
  batch tensor, which line 90 updates in place. Reading or writing row \<open>i\<close> of a tensor
  with no such row raises \<open>IndexError\<close>; the right-hand side of line 90 is evaluated
  before the assignment.
\<close>

fun collect_latents ::
  "'p VAECache \<Rightarrow> 'p data_backend \<Rightarrow> latent list \<Rightarrow> nat \<Rightarrow> string list \<Rightarrow>
   string list \<Rightarrow> latent list \<Rightarrow> exn + (string list \<times> latent list)" where
  "collect_latents self be latents i [] full_filenames latents_list =
     Inr (full_filenames, latents_list)"
| "collect_latents self be latents i (filepath # rest) full_filenames latents_list =
     (let full_filename = fst (generate_filename self filepath) in
      if exists be full_filename then
        (case load_from_cache self be full_filename of
           Inl e \<Rightarrow> Inl e
         | Inr loaded \<Rightarrow>
             if i < length latents then
               (case setitem_row (latents ! i) loaded of
                  Inl e \<Rightarrow> Inl e
                | Inr row \<Rightarrow>
                    collect_latents self be (latents[i := row]) (Suc i) rest
                      (full_filenames @ [full_filename])
                      (latents_list @ [latents[i := row] ! i]))
             else Inl IndexError)
      else if i < length latents then
        collect_latents self be latents (Suc i) rest
          (full_filenames @ [full_filename]) (latents_list @ [latents ! i])
      else Inl IndexError)"

text \<open>
  Lines 68-98. \<^verbatim>\<open>torch.stack\<close> of an empty list raises \<open>RuntimeError\<close>, at line 74 and
  at line 98. The first component of the result is the trace of the call.
\<close>

definition encode_image_batch ::
  "'p VAECache \<Rightarrow> 'p data_backend \<Rightarrow> 'p list \<Rightarrow> string list \<Rightarrow>
   'p event list \<times> (exn + (string list \<times> latent list))" where
  "encode_image_batch self be pixel_values_batch filepaths =
     (if pixel_values_batch = [] then ([], Inl RuntimeError)
      else
        let latents = map (map (\<lambda>x. x * scaling_factor (vae self)))
                        (encode (vae self) pixel_values_batch)
        in ([VaeEncode pixel_values_batch],
            case collect_latents self be latents 0 filepaths [] [] of
              Inl e \<Rightarrow> Inl e
            | Inr (full_filenames, latents_list) \<Rightarrow>
                if latents_list = [] then Inl RuntimeError
                else Inr (full_filenames, latents_list)))"

text \<open>Lines 64-66.\<close>

definition encode_image ::
  "'p VAECache \<Rightarrow> 'p data_backend \<Rightarrow> 'p \<Rightarrow> string \<Rightarrow> 'p event list \<times> (exn + latent)" where
  "encode_image self be pixel_values filepath =
     (case encode_image_batch self be [pixel_values] [filepath] of
        (trace, Inl e) \<Rightarrow> (trace, Inl e)
      | (trace, Inr (full_filenames, latents)) \<Rightarrow>
          (trace, case latents of [] \<Rightarrow> Inl IndexError | l # ls \<Rightarrow> Inr l))"

subsection \<open>\<^verbatim>\<open>split_cache_between_processes\<close> and \<^verbatim>\<open>process_directory\<close>\<close>

text \<open>
  Lines 100-106. \<open>split\<close> is \<^verbatim>\<open>accelerator.split_between_processes\<close>: the slice of the list
  that this process receives.
\<close>

definition split_cache_between_processes ::
  "(string list \<Rightarrow> string list) \<Rightarrow> 'p VAECache \<Rightarrow> 'p data_backend \<Rightarrow> 'p VAECache" where
  "split_cache_between_processes split self be =
     self\<lparr>local_unprocessed_files :=
            Some (split (discover_unprocessed_files self be (cache_dir self)))\<rparr>"

text \<open>Lines 113-122: the names of the cache files, without their extension.\<close>

definition existing_pt_files :: "'p VAECache \<Rightarrow> 'p data_backend \<Rightarrow> string list" where
  "existing_pt_files self be =
     [fst (splitext (if subdir \<noteq> [] then join subdir file else file)).
      (subdir, dirs, fs) \<leftarrow> list_files be ''*.pt'' (cache_dir self),
      file \<leftarrow> fs]"

text \<open>Lines 129-137: the files that the second scan appends to the list.\<close>

definition scanned_files :: "'p VAECache \<Rightarrow> 'p data_backend \<Rightarrow> string \<Rightarrow> string list" where
  "scanned_files self be directory =
     [join subdir file.
      (subdir, dirs, fs) \<leftarrow> list_files be ''*.[jJpP][pPnN][gG]'' directory,
      file \<leftarrow> fs,
      fst (splitext file) \<notin> set (existing_pt_files self be)]"

text \<open>
  Lines 147-176, the loop over the shuffled list. The accumulators are the backend, the
  two batch lists and the trace. The result is the exception that left the loop, if
  any, with the accumulators at that point.
\<close>

fun process_files ::
  "'p VAECache \<Rightarrow> 'p data_backend \<Rightarrow> string list \<Rightarrow> 'p list \<Rightarrow> 'p event list \<Rightarrow>
   string list \<Rightarrow> exn option \<times> 'p data_backend \<times> string list \<times> 'p list \<times> 'p event list" where
  "process_files self be current_batch_filepaths batch_pixel_values trace [] =
     (None, be, current_batch_filepaths, batch_pixel_values, trace)"
| "process_files self be current_batch_filepaths batch_pixel_values trace (filepath # rest) =
     (let full_filename = fst (generate_filename self filepath) in
      if exists be full_filename then
        process_files self be current_batch_filepaths batch_pixel_values trace rest
      else
        (case read_pixel_values be filepath of
           Inl e \<Rightarrow>
             if e = OSError \<or> e = RuntimeError then
               process_files self
                 (if delete_problematic_images self then delete be filepath else be)
                 current_batch_filepaths batch_pixel_values trace rest
             else (Some e, be, current_batch_filepaths, batch_pixel_values, trace)
         | Inr pixel_values \<Rightarrow>
             if int (length (batch_pixel_values @ [pixel_values])) = write_batch_size self then
               (case encode_image_batch self be (batch_pixel_values @ [pixel_values])
                       (current_batch_filepaths @ [filepath]) of
                  (tr, Inl e) \<Rightarrow>
                    (Some e, be, current_batch_filepaths @ [filepath],
                     batch_pixel_values @ [pixel_values], trace @ tr)
                | (tr, Inr (full_filenames, batch_latents)) \<Rightarrow>
                    process_files self (write_batch be full_filenames batch_latents) [] []
                      (trace @ tr @ [WriteBatch full_filenames batch_latents]) rest)
             else
               process_files self be (current_batch_filepaths @ [filepath])
                 (batch_pixel_values @ [pixel_values]) trace rest))"

text \<open>
  The outcome of a call of \<^verbatim>\<open>process_directory\<close>: the exception that ended it, if any,
  the object and the backend as the call left them, and the trace of the call.
\<close>

record 'p run =
  raised :: "exn option"
  obj :: "'p VAECache"
  store :: "'p data_backend"
  calls :: "'p event list"

text \<open>
  Lines 124-142: \<^verbatim>\<open>files_to_process\<close> is the list object of the attribute
  \<^verbatim>\<open>local_unprocessed_files\<close>, so appending to it and shuffling it changes the attribute.
  \<open>shuffle\<close> is the permutation that \<^verbatim>\<open>random.shuffle\<close> applies.
\<close>

definition files_to_process ::
  "(string list \<Rightarrow> string list) \<Rightarrow> 'p VAECache \<Rightarrow> 'p data_backend \<Rightarrow> string \<Rightarrow>
   string list option" where
  "files_to_process shuffle self be directory =
     map_option (\<lambda>local_files. shuffle (local_files @ scanned_files self be directory))
       (local_unprocessed_files self)"

text \<open>
  Lines 108-183. Reading the attribute at line 124 raises \<open>AttributeError\<close> when it was
  never set. Line 181 passes \<^verbatim>\<open>files_to_process\<close>, the whole list, as the file paths of
  the last batch.
\<close>

definition process_directory ::
  "(string list \<Rightarrow> string list) \<Rightarrow> 'p VAECache \<Rightarrow> 'p data_backend \<Rightarrow> string \<Rightarrow> 'p run" where
  "process_directory shuffle self be directory =
     (case files_to_process shuffle self be directory of
        None \<Rightarrow> \<lparr>raised = Some AttributeError, obj = self, store = be, calls = []\<rparr>
      | Some worklist \<Rightarrow>
          let self' = self\<lparr>local_unprocessed_files := Some worklist\<rparr> in
          (case process_files self' be [] [] [] worklist of
             (Some e, be', current_batch_filepaths, batch_pixel_values, trace) \<Rightarrow>
               \<lparr>raised = Some e, obj = self', store = be', calls = trace\<rparr>
           | (None, be', current_batch_filepaths, batch_pixel_values, trace) \<Rightarrow>
               if batch_pixel_values \<noteq> [] then
                 (case encode_image_batch self' be' batch_pixel_values worklist of
                    (tr, Inl e) \<Rightarrow>
                      \<lparr>raised = Some e, obj = self', store = be', calls = trace @ tr\<rparr>
                  | (tr, Inr (full_filenames, batch_latents)) \<Rightarrow>
                      \<lparr>raised = None, obj = self',
                       store = write_batch be' full_filenames batch_latents,
                       calls = trace @ tr @ [WriteBatch full_filenames batch_latents]\<rparr>)
               else \<lparr>raised = None, obj = self', store = be', calls = trace\<rparr>))"


text \<open>
  The row that a returning call of \<^verbatim>\<open>encode_image_batch\<close> holds for a cache key: the
  computed row, or the row after line 90 when the entry loads.
\<close>

definition cached_or_computed :: "'p data_backend \<Rightarrow> string \<Rightarrow> latent \<Rightarrow> latent" where
  "cached_or_computed be full_filename row =
     (case torch_load be full_filename of
        Inl e \<Rightarrow> row
      | Inr loaded \<Rightarrow> (case setitem_row row loaded of Inl e \<Rightarrow> row | Inr row' \<Rightarrow> row'))"

subsection \<open>Concrete objects\<close>

text \<open>
  A VAE whose pixel values are numbers: the latent of \<open>n\<close> is the one-element tensor
  \<open>[n]\<close>, and the scaling factor is 2.
\<close>

definition example_vae :: "nat vae_model" where
  "example_vae = \<lparr>encode = map (\<lambda>n. [real n]), scaling_factor = 2\<rparr>"

definition example_cache :: "int \<Rightarrow> bool \<Rightarrow> string list option \<Rightarrow> nat VAECache" where
  "example_cache batch_size delete_flag local_files =
     \<lparr>vae = example_vae, cache_dir = ''vae_cache'', resolution = 1024,
      delete_problematic_images = delete_flag, write_batch_size = batch_size,
      local_unprocessed_files = local_files\<rparr>"

text \<open>The file names \<^verbatim>\<open>a.png\<close>, \<^verbatim>\<open>aa.png\<close>, \<^verbatim>\<open>aaa.png\<close>, ...\<close>

definition image_names :: "nat \<Rightarrow> string list" where
  "image_names k = map (\<lambda>i. replicate (Suc i) CHR ''a'' @ ''.png'') [0 ..< k]"

text \<open>
  A backend that holds the first \<open>k\<close> of these images in the directory \<^verbatim>\<open>data\<close> and no
  cache entry. The pixel values of an image are the length of its path.
\<close>

definition example_backend :: "nat \<Rightarrow> nat data_backend" where
  "example_backend k =
     \<lparr>files = (\<lambda>path. if path \<in> set (map (join ''data'') (image_names k))
                       then Some (ImageFile (Inr (length path))) else None),
      list_files = (\<lambda>str_pattern instance_data_root.
         if str_pattern = ''*.[jJpP][pPnN][gG]'' \<and> instance_data_root = ''data''
         then [(''data'', [], image_names k)] else [])\<rparr>"

text \<open>
  The backend with two images after another worker has written the latent \<open>[7]\<close> for
  \<^verbatim>\<open>a.png\<close>.
\<close>

definition cached_backend :: "nat data_backend" where
  "cached_backend = write_batch (example_backend 2) [''vae_cache/a.pt''] [[7]]"

text \<open>The same backend when the tensor stored for \<^verbatim>\<open>a.png\<close> has two numbers.\<close>

definition misshapen_backend :: "nat data_backend" where
  "misshapen_backend = write_batch (example_backend 2) [''vae_cache/a.pt''] [[7, 8]]"

text \<open>
  Python's \<^verbatim>\<open>fnmatch\<close> on the pattern \<^verbatim>\<open>*.[jJpP][pPnN][gG]\<close> that lines 51 and 130 pass
  to \<^verbatim>\<open>list_files\<close>: the name ends in a dot and three letters, one of each class.
\<close>

definition image_pattern_matches :: "string \<Rightarrow> bool" where
  "image_pattern_matches name =
     (case rev name of
        c3 # c2 # c1 # dot # stem \<Rightarrow>
          dot = CHR ''.'' \<and> c1 \<in> set ''jJpP'' \<and> c2 \<in> set ''pPnN'' \<and> c3 \<in> set ''gG''
      | _ \<Rightarrow> False)"

text \<open>A backend whose only image has an upper-case extension.\<close>

definition upper_case_backend :: "nat data_backend" where
  "upper_case_backend =
     \<lparr>files = (\<lambda>path. if path = ''data/a.JPG'' then Some (ImageFile (Inr 10)) else None),
      list_files = (\<lambda>str_pattern instance_data_root.
         if str_pattern = ''*.[jJpP][pPnN][gG]'' \<and> instance_data_root = ''data''
         then [(''data'', [], [''a.JPG''])] else [])\<rparr>"

text \<open>
  A backend with two images: decoding \<^verbatim>\<open>a.png\<close> raises the exception \<open>e\<close>, and
  \<^verbatim>\<open>aa.png\<close> decodes to the pixel values 11.
\<close>

definition failing_backend :: "exn \<Rightarrow> nat data_backend" where
  "failing_backend e =
     \<lparr>files = (\<lambda>path. if path = ''data/a.png'' then Some (ImageFile (Inl e))
                       else if path = ''data/aa.png'' then Some (ImageFile (Inr 11))
                       else None),
      list_files = (\<lambda>str_pattern instance_data_root.
         if str_pattern = ''*.[jJpP][pPnN][gG]'' \<and> instance_data_root = ''data''
         then [(''data'', [], [''a.png'', ''aa.png''])] else [])\<rparr>"


text \<open>The file names \<^verbatim>\<open>00.png\<close>, \<^verbatim>\<open>01.png\<close>, ... and a backend that holds the first \<open>k\<close>
  of them as images in the directory \<^verbatim>\<open>data\<close>, with no cache entry.\<close>

definition numbered_names :: "nat \<Rightarrow> string list" where
  "numbered_names k =
     map (\<lambda>i. [char_of (48 + i div 10), char_of (48 + i mod 10)] @ ''.png'') [0 ..< k]"

definition numbered_backend :: "nat \<Rightarrow> nat data_backend" where
  "numbered_backend k =
     \<lparr>files = (\<lambda>path. if path \<in> set (map (join ''data'') (numbered_names k))
                       then Some (ImageFile (Inr (length path))) else None),
      list_files = (\<lambda>str_pattern instance_data_root.
         if str_pattern = ''*.[jJpP][pPnN][gG]'' \<and> instance_data_root = ''data''
         then [(''data'', [], numbered_names k)] else [])\<rparr>"

text \<open>What a run is observed by: its exception and the sizes of its \<^verbatim>\<open>write_batch\<close> calls.\<close>

definition flush_sizes :: "'p event list \<Rightarrow> nat list" where
  "flush_sizes trace =
     concat (map (\<lambda>ev. case ev of VaeEncode batch \<Rightarrow> []
                              | WriteBatch paths payloads \<Rightarrow> [length paths]) trace)"

definition run_summary :: "'p run \<Rightarrow> exn option \<times> nat list" where
  "run_summary r = (raised r, flush_sizes (calls r))"

text \<open>The cache key of a file path: the first component of \<^verbatim>\<open>_generate_filename\<close>.\<close>

abbreviation cache_key :: "'p VAECache \<Rightarrow> string \<Rightarrow> string" where
  "cache_key self filepath \<equiv> fst (generate_filename self filepath)"

text \<open>
  An item that the loop of \<^verbatim>\<open>process_directory\<close> passes over without decoding it into
  the batch: its cache entry exists (line 152), or its decode step raises an exception
  that line 163 catches.
\<close>

definition settled :: "'p VAECache \<Rightarrow> 'p data_backend \<Rightarrow> string \<Rightarrow> bool" where
  "settled self be filepath =
     (exists be (cache_key self filepath) \<or>
      (case read_pixel_values be filepath of
         Inl e \<Rightarrow> e = OSError \<or> e = RuntimeError
       | Inr pixel_values \<Rightarrow> False))"

text \<open>
  Two runs in succession over two images with a batch size of 2, each run after
  \<^verbatim>\<open>split_cache_between_processes\<close>; the second run shuffles differently.
\<close>

definition example_first_run :: "nat run" where
  "example_first_run =
     process_directory id
       (split_cache_between_processes id (example_cache 2 False None) (example_backend 2))
       (example_backend 2) ''data''"

definition example_second_run :: "nat run" where
  "example_second_run =
     process_directory rev
       (split_cache_between_processes id (obj example_first_run) (store example_first_run))
       (store example_first_run) ''data''"

section \<open>Properties\<close>

subsection \<open>Cache keys\<close>

lemma rfind_dropWhile:
  "rfind p c + 1 = int (length (dropWhile (\<lambda>ch. ch \<noteq> c) (rev p)))"
proof (induction p)
  case Nil
  show ?case by simp
next
  case (Cons x xs)
  show ?case
  proof (cases "c \<in> set xs")
    case True
    then have "dropWhile (\<lambda>ch. ch \<noteq> c) (rev xs @ [x]) = dropWhile (\<lambda>ch. ch \<noteq> c) (rev xs) @ [x]"
      by (intro dropWhile_append1[of c]) auto
    moreover have "dropWhile (\<lambda>ch. ch \<noteq> c) (rev xs) \<noteq> []"
      using True by simp
    then have "0 \<le> rfind xs c"
      using Cons.IH by (cases "dropWhile (\<lambda>ch. ch \<noteq> c) (rev xs)") auto
    ultimately show ?thesis
      using Cons.IH by (simp add: Let_def)
  next
    case False
    then have d: "dropWhile (\<lambda>ch. ch \<noteq> c) (rev xs @ [x]) = dropWhile (\<lambda>ch. ch \<noteq> c) [x]"
      by (intro dropWhile_append2) auto
    have e: "dropWhile (\<lambda>ch. ch \<noteq> c) (rev xs) = []"
      using False by auto
    have "rfind xs c + 1 = 0"
      using Cons.IH unfolding e by simp
    then have "rfind xs c = - 1"
      by simp
    then show ?thesis
      using d by (simp add: Let_def)
  qed
qed

lemma rfind_absent:
  assumes "c \<notin> set p"
  shows "rfind p c = - 1"
proof -
  have e: "dropWhile (\<lambda>ch. ch \<noteq> c) (rev p) = []"
    using assms by auto
  have "rfind p c + 1 = int (length (dropWhile (\<lambda>ch. ch \<noteq> c) (rev p)))"
    by (rule rfind_dropWhile)
  then have "rfind p c + 1 = 0"
    unfolding e by simp
  then show ?thesis
    by simp
qed

lemma split_at_last:
  "p = rev (dropWhile P (rev p)) @ rev (takeWhile P (rev p))"
proof -
  have "rev (dropWhile P (rev p)) @ rev (takeWhile P (rev p))
        = rev (takeWhile P (rev p) @ dropWhile P (rev p))"
    by (simp only: rev_append)
  also have "\<dots> = rev (rev p)"
    by (simp only: takeWhile_dropWhile_id)
  finally show ?thesis
    by simp
qed

lemma basename_strip_directory: "basename p = strip_directory p"
proof -
  let ?P = "\<lambda>ch. ch \<noteq> CHR ''/''"
  have n: "nat (rfind p CHR ''/'' + 1) = length (rev (dropWhile ?P (rev p)))"
    using rfind_dropWhile[of p "CHR ''/''"] by simp
  have "drop (length (rev (dropWhile ?P (rev p)))) (rev (dropWhile ?P (rev p)) @ rev (takeWhile ?P (rev p)))
        = rev (takeWhile ?P (rev p))"
    by (rule append_eq_conv_conj[THEN iffD1, THEN conjunct2, symmetric]) simp
  then have "drop (length (rev (dropWhile ?P (rev p)))) p = rev (takeWhile ?P (rev p))"
    using split_at_last[of p ?P] by simp
  then show ?thesis
    unfolding basename_def strip_directory_def n .
qed

lemma strip_directory_no_sep: "CHR ''/'' \<notin> set (strip_directory p)"
  unfolding strip_directory_def
  using set_takeWhileD[of "CHR ''/''" "\<lambda>ch. ch \<noteq> CHR ''/''" "rev p"] by auto

lemma list_ex_upt_take:
  "k \<le> length n \<Longrightarrow> list_ex (\<lambda>i. P (n ! i)) [0 ..< k] = list_ex P (take k n)"
  by (induction k) (auto simp: take_Suc_conv_app_nth)

lemma take_rev_butlast: "take (length xs - 1) (rev xs) = rev (drop 1 xs)"
  by (cases xs) simp_all

lemma splitext_strip_extension:
  assumes "CHR ''/'' \<notin> set n"
  shows "fst (splitext n) = strip_extension n"
proof -
  let ?P = "\<lambda>ch. ch \<noteq> CHR ''.''"
  let ?D = "dropWhile ?P (rev n)"
  have sep: "rfind n CHR ''/'' = - 1" using assms by (rule rfind_absent)
  have dot: "rfind n CHR ''.'' = int (length ?D) - 1"
    using rfind_dropWhile[of n "CHR ''.''"] by simp
  have le: "length ?D \<le> length n"
    using length_dropWhile_le[of ?P "rev n"] by simp
  have n: "n = rev ?D @ rev (takeWhile ?P (rev n))" by (rule split_at_last)
  have "take (length ?D - 1) (rev ?D @ rev (takeWhile ?P (rev n))) = take (length ?D - 1) (rev ?D)"
    by simp
  also have "\<dots> = rev (drop 1 ?D)"
    by (rule take_rev_butlast)
  finally have stem: "take (length ?D - 1) n = rev (drop 1 ?D)"
    using n by simp
  have mem: "(CHR ''.'' \<in> set n) = (?D \<noteq> [])"
    by (auto simp: dropWhile_eq_Nil_conv)
  show ?thesis
  proof (cases "?D = []")
    case True
    then show ?thesis
      using mem sep dot by (simp add: splitext_def strip_extension_def Let_def)
  next
    case False
    then have pos: "0 < length ?D" by simp
    then have k: "nat (int (length ?D) - 1) = length ?D - 1" by simp
    have ex: "list_ex (\<lambda>i. n ! i \<noteq> CHR ''.'') [0 ..< length ?D - 1] = list_ex ?P (rev (drop 1 ?D))"
      using list_ex_upt_take[of "length ?D - 1" n ?P] le stem by simp
    show ?thesis
      using False mem pos ex stem
      by (simp add: splitext_def strip_extension_def Let_def sep dot k del: dropWhile_eq_Nil_conv)
  qed
qed

lemma strip_extension_subset: "set (strip_extension n) \<subseteq> set n"
proof -
  have "set (drop 1 (dropWhile (\<lambda>ch. ch \<noteq> CHR ''.'') (rev n))) \<subseteq> set (rev n)"
    using set_drop_subset set_dropWhileD by fastforce
  then show ?thesis by (auto simp: strip_extension_def Let_def)
qed

lemma base_filename_no_sep:
  "CHR ''/'' \<notin> set (strip_extension (strip_directory p) @ ''.pt'')"
  using strip_extension_subset[of "strip_directory p"] strip_directory_no_sep[of p] by auto

lemma join_under_root: "CHR ''/'' \<notin> set b \<Longrightarrow> join a b = under_root a b"
  by (cases b) (auto simp: join_def under_root_def)

lemma generate_filename_eq:
  "generate_filename self identity = spec_cache_key (cache_dir self) identity"
  using join_under_root[OF base_filename_no_sep, of "cache_dir self" identity]
    splitext_strip_extension[OF strip_directory_no_sep, of identity]
  by (simp add: generate_filename_def spec_cache_key_def basename_strip_directory Let_def)

text \<open>
  Claim C6. Cache-key resolution is a total function of the identity and of the cache
  directory alone: for every identity, \<^verbatim>\<open>_generate_filename\<close> returns the pair that the
  specification describes. The base name is the identity without its directory path and
  without its extension, followed by \<^verbatim>\<open>.pt\<close>; it contains no separator, and the cache key
  is that name placed directly under the cache directory.
\<close>

theorem generate_filename_spec:
  "generate_filename self identity = spec_cache_key (cache_dir self) identity \<and>
   CHR ''/'' \<notin> set (snd (generate_filename self identity)) \<and>
   fst (generate_filename self identity)
     = under_root (cache_dir self) (snd (generate_filename self identity))"
  using base_filename_no_sep[of identity]
  by (simp add: generate_filename_eq spec_cache_key_def)

theorem generate_filename_spec_witness:
  "generate_filename (example_cache 25 False None) ''data/sub/a.b.png''
     = (''vae_cache/a.b.pt'', ''a.b.pt'')"
  using generate_filename_spec[of "example_cache 25 False None" "''data/sub/a.b.png''"]
  by (simp add: spec_cache_key_def under_root_def strip_extension_def strip_directory_def
      example_cache_def)

subsection \<open>Encoding a batch\<close>

lemma collect_latents_Inr:
  assumes "collect_latents self be latents i fps names lats = Inr r"
  shows "r = (names @ map (cache_key self) fps,
              lats @ map (\<lambda>(j, fp). cached_or_computed be (cache_key self fp) (latents ! j))
                         (zip [i ..< i + length fps] fps))
         \<and> (fps = [] \<or> i + length fps \<le> length latents)"
  using assms
proof (induction fps arbitrary: latents i names lats)
  case Nil
  then show ?case by auto
next
  case (Cons fp fps)
  let ?k = "cache_key self fp"
  have upt: "[i ..< i + length (fp # fps)] = i # [Suc i ..< Suc i + length fps]"
    using upt_conv_Cons[of i "i + Suc (length fps)"] by simp
  show ?case
  proof (cases "exists be ?k")
    case True
    then obtain v row where v: "torch_load be ?k = Inr v" and i: "i < length latents"
      and sr: "setitem_row (latents ! i) v = Inr row"
      and rec: "collect_latents self be (latents[i := row]) (Suc i) fps (names @ [?k])
                  (lats @ [latents[i := row] ! i]) = Inr r"
      using Cons.prems by (auto simp: Let_def load_from_cache_def split: sum.splits if_splits)
    have same: "map (\<lambda>(j, fp). cached_or_computed be (cache_key self fp) (latents[i := row] ! j))
                         (zip [Suc i ..< Suc i + length fps] fps)
          = map (\<lambda>(j, fp). cached_or_computed be (cache_key self fp) (latents ! j))
                         (zip [Suc i ..< Suc i + length fps] fps)"
    proof (rule map_cong[OF refl])
      fix x
      assume "x \<in> set (zip [Suc i ..< Suc i + length fps] fps)"
      then have "(fst x, snd x) \<in> set (zip [Suc i ..< Suc i + length fps] fps)"
        by simp
      then have "fst x \<in> set [Suc i ..< Suc i + length fps]"
        by (rule set_zip_leftD)
      then have "fst x \<noteq> i"
        by (simp del: upt_Suc)
      then show "(case x of (j, fp) \<Rightarrow> cached_or_computed be (cache_key self fp) (latents[i := row] ! j))
               = (case x of (j, fp) \<Rightarrow> cached_or_computed be (cache_key self fp) (latents ! j))"
        by (cases x) auto
    qed
    have head: "cached_or_computed be ?k (latents ! i) = row"
      using v sr by (simp add: cached_or_computed_def)
    show ?thesis
      using Cons.IH[OF rec] i head unfolding upt same by auto
  next
    case False
    then have i: "i < length latents"
      and rec: "collect_latents self be latents (Suc i) fps (names @ [?k]) (lats @ [latents ! i]) = Inr r"
      using Cons.prems by (auto simp: Let_def split: if_splits)
    have "torch_load be ?k = Inl OSError"
      using False by (simp add: exists_def torch_load_def)
    then have head: "cached_or_computed be ?k (latents ! i) = latents ! i"
      by (simp add: cached_or_computed_def)
    show ?thesis
      using Cons.IH[OF rec] i head unfolding upt by auto
  qed
qed

lemma setitem_row_fits:
  "length loaded = length row \<or> length loaded = 1 \<Longrightarrow>
   \<exists>row'. setitem_row row loaded = Inr row' \<and> length row' = length row"
  by (auto simp: setitem_row_def)

lemma collect_latents_total:
  assumes "i + length fps \<le> length latents"
    and "\<forall>fp\<in>set fps. \<forall>r. files be (cache_key self fp) \<noteq> Some (ImageFile r)"
    and "\<forall>j<length fps. \<forall>v. files be (cache_key self (fps ! j)) = Some (TensorFile v) \<longrightarrow>
           length v = length (latents ! (i + j)) \<or> length v = 1"
  shows "\<exists>r. collect_latents self be latents i fps names lats = Inr r"
  using assms
proof (induction fps arbitrary: latents i names lats)
  case Nil
  then show ?case by simp
next
  case (Cons fp fps)
  let ?k = "cache_key self fp"
  have i: "i < length latents" and rest: "Suc i + length fps \<le> length latents"
    using Cons.prems(1) by simp_all
  have tl: "\<forall>fp\<in>set fps. \<forall>r. files be (cache_key self fp) \<noteq> Some (ImageFile r)"
    using Cons.prems(2) by simp
  have fit_tl: "\<forall>j<length fps. \<forall>v. files be (cache_key self (fps ! j)) = Some (TensorFile v) \<longrightarrow>
           length v = length (latents ! (Suc i + j)) \<or> length v = 1"
  proof (intro allI impI)
    fix j v
    assume "j < length fps" and "files be (cache_key self (fps ! j)) = Some (TensorFile v)"
    then show "length v = length (latents ! (Suc i + j)) \<or> length v = 1"
      using Cons.prems(3)[rule_format, of "Suc j" v] by simp
  qed
  show ?case
  proof (cases "files be ?k")
    case None
    then show ?thesis
      using Cons.IH[OF rest tl fit_tl] i by (simp add: exists_def Let_def)
  next
    case (Some b)
    then obtain t where t: "b = TensorFile t"
      using Cons.prems(2) by (cases b) auto
    have "length t = length (latents ! i) \<or> length t = 1"
      using Cons.prems(3)[rule_format, of 0 t] Some t by simp
    then obtain row where row: "setitem_row (latents ! i) t = Inr row"
      using setitem_row_fits by blast
    have rest': "Suc i + length fps \<le> length (latents[i := row])"
      using rest by simp
    have fit': "\<forall>j<length fps. \<forall>v. files be (cache_key self (fps ! j)) = Some (TensorFile v) \<longrightarrow>
           length v = length (latents[i := row] ! (Suc i + j)) \<or> length v = 1"
      using fit_tl by simp
    from Cons.IH[OF rest' tl fit'] show ?thesis
      using Some t i row by (simp add: exists_def Let_def load_from_cache_def torch_load_def)
  qed
qed

lemma encode_image_batch_Inr:
  assumes "encode_image_batch self be pvs fps = (tr, Inr (names, lats))"
  shows "tr = [VaeEncode pvs] \<and> pvs \<noteq> [] \<and> fps \<noteq> [] \<and> lats \<noteq> []
     \<and> length fps \<le> length (encode (vae self) pvs)
     \<and> names = map (cache_key self) fps
     \<and> length lats = length fps
     \<and> (\<forall>i<length fps. lats ! i =
           cached_or_computed be (cache_key self (fps ! i))
             (map (\<lambda>x. x * scaling_factor (vae self)) (encode (vae self) pvs ! i)))"
proof -
  let ?latents = "map (map (\<lambda>x. x * scaling_factor (vae self))) (encode (vae self) pvs)"
  have ne: "pvs \<noteq> []" and tr: "tr = [VaeEncode pvs]"
    using assms by (auto simp: encode_image_batch_def Let_def split: if_splits)
  have c: "collect_latents self be ?latents 0 fps [] [] = Inr (names, lats)" and l: "lats \<noteq> []"
    using assms ne by (auto simp: encode_image_batch_def Let_def split: sum.splits if_splits)
  note r = collect_latents_Inr[OF c]
  have lats: "lats = map (\<lambda>(j, fp). cached_or_computed be (cache_key self fp) (?latents ! j))
                       (zip [0 ..< length fps] fps)"
    and names: "names = map (cache_key self) fps"
    using r by simp_all
  have fne: "fps \<noteq> []" using l lats by auto
  then have len: "length fps \<le> length (encode (vae self) pvs)" using r by simp
  have "\<forall>i<length fps. lats ! i =
           cached_or_computed be (cache_key self (fps ! i))
             (map (\<lambda>x. x * scaling_factor (vae self)) (encode (vae self) pvs ! i))"
    using len unfolding lats by auto
  moreover have "length lats = length fps" unfolding lats by simp
  ultimately show ?thesis
    using ne tr l fne len names by blast
qed

lemma encode_image_batch_total:
  assumes "pvs \<noteq> []" "fps \<noteq> []" "length fps \<le> length (encode (vae self) pvs)"
    and "\<forall>fp\<in>set fps. \<forall>r. files be (cache_key self fp) \<noteq> Some (ImageFile r)"
    and "\<forall>i<length fps. \<forall>v. files be (cache_key self (fps ! i)) = Some (TensorFile v) \<longrightarrow>
           length v = length (encode (vae self) pvs ! i)"
  shows "\<exists>names lats. encode_image_batch self be pvs fps = ([VaeEncode pvs], Inr (names, lats))"
proof -
  let ?latents = "map (map (\<lambda>x. x * scaling_factor (vae self))) (encode (vae self) pvs)"
  have b: "0 + length fps \<le> length ?latents" using assms(3) by simp
  have fit: "\<forall>j<length fps. \<forall>v. files be (cache_key self (fps ! j)) = Some (TensorFile v) \<longrightarrow>
           length v = length (?latents ! (0 + j)) \<or> length v = 1"
    using assms(3,5) by simp
  from collect_latents_total[OF b assms(4) fit, of "[]" "[]"]
  obtain names lats where c: "collect_latents self be ?latents 0 fps [] [] = Inr (names, lats)"
    by auto
  have "length lats = length fps"
    using collect_latents_Inr[OF c] by simp
  then have "lats \<noteq> []" using assms(2) by auto
  then show ?thesis
    using c assms(1) by (simp add: encode_image_batch_def Let_def)
qed

lemma fold_write_keeps:
  assumes "m k = Some (TensorFile v)"
    and "\<forall>x\<in>set ps. fst x = k \<longrightarrow> snd x = v"
  shows "fold (\<lambda>(path, payload) m. m(path \<mapsto> TensorFile payload)) ps m k = Some (TensorFile v)"
  using assms by (induction ps arbitrary: m) (auto split: prod.splits)

lemma torch_load_TensorFile: "files be k = Some (TensorFile v) \<Longrightarrow> torch_load be k = Inr v"
  by (simp add: torch_load_def)

text \<open>
  Claim C3 as stated fails when the entry appears between the existence check of line 89
  and the \<^verbatim>\<open>write_batch\<close> of line 174. A worker checks \<^verbatim>\<open>a.pt\<close> on the backend without
  cache entries and computes \<open>[20]\<close>; another worker then writes \<open>[7]\<close>, so the entry
  exists when the first worker persists; the first worker's \<^verbatim>\<open>write_batch\<close> replaces
  \<open>[7]\<close> by \<open>[20]\<close>. Nothing in the code locks the cache directory.
\<close>

theorem late_entry_is_overwritten:
  "snd (encode_image_batch (example_cache 25 False None) (example_backend 2) [10] [''data/a.png''])
     = Inr ([''vae_cache/a.pt''], [[20]]) \<and>
   files cached_backend ''vae_cache/a.pt'' = Some (TensorFile [7]) \<and>
   files (write_batch cached_backend [''vae_cache/a.pt''] [[20]]) ''vae_cache/a.pt''
     = Some (TensorFile [20])"
  by code_simp

text \<open>
  A stored tensor whose shape is not the shape of a row makes line 90 raise: with
  \<open>[7, 8]\<close> stored for \<^verbatim>\<open>a.png\<close> and rows of one number, the call ends with
  \<open>RuntimeError\<close>.
\<close>

lemma stored_tensor_of_other_shape_raises:
  "snd (encode_image_batch (example_cache 25 False None) misshapen_backend [10, 11]
          [''data/a.png'', ''data/aa.png'']) = Inl RuntimeError"
  by code_simp

text \<open>
  Claim C3, amended. Take a batch with one file path per pixel tensor, encoded by a VAE
  that returns one latent per input, over a cache directory whose entries are
  serialised tensors of the shape of a row. Then \<^verbatim>\<open>encode_image_batch\<close> raises nothing;
  for every item whose cache entry exists when line 89 checks it, the value returned is
  the stored value, not the computed one; and \<^verbatim>\<open>write_batch\<close> of the result on the backend
  as it was checked leaves that stored value in place. So a worker whose check comes
  after another worker's write keeps the first writer's value.
\<close>

theorem encode_image_batch_existing_entry_wins:
  assumes "pvs \<noteq> []" and "length fps = length pvs"
    and "length (encode (vae self) pvs) = length pvs"
    and "\<forall>fp\<in>set fps. \<forall>r. files be (cache_key self fp) \<noteq> Some (ImageFile r)"
    and "\<forall>i<length fps. \<forall>v. files be (cache_key self (fps ! i)) = Some (TensorFile v) \<longrightarrow>
           length v = length (encode (vae self) pvs ! i)"
  shows "\<exists>names lats.
           snd (encode_image_batch self be pvs fps) = Inr (names, lats) \<and>
           length names = length fps \<and> length lats = length fps \<and>
           (\<forall>i<length fps. \<forall>v.
              files be (cache_key self (fps ! i)) = Some (TensorFile v) \<longrightarrow>
                names ! i = cache_key self (fps ! i) \<and> lats ! i = v \<and>
                files (write_batch be names lats) (names ! i) = Some (TensorFile v))"
proof -
  let ?key = "cache_key self"
  have "fps \<noteq> []" using assms(1,2) by auto
  moreover have "length fps \<le> length (encode (vae self) pvs)" using assms(2,3) by simp
  ultimately obtain names lats
    where e: "encode_image_batch self be pvs fps = ([VaeEncode pvs], Inr (names, lats))"
    using encode_image_batch_total[OF assms(1) _ _ assms(4,5)] by blast
  note r = encode_image_batch_Inr[OF e]
  have names: "names = map ?key fps" and len: "length lats = length fps"
    and rows: "\<forall>i<length fps. lats ! i =
           cached_or_computed be (?key (fps ! i))
             (map (\<lambda>x. x * scaling_factor (vae self)) (encode (vae self) pvs ! i))"
    using r by simp_all
  have stored: "lats ! i = v" if "i < length fps" "files be (?key (fps ! i)) = Some (TensorFile v)" for i v
  proof -
    have "length v = length (encode (vae self) pvs ! i)"
      using assms(5) that by blast
    then have "setitem_row (map (\<lambda>x. x * scaling_factor (vae self)) (encode (vae self) pvs ! i)) v = Inr v"
      by (simp add: setitem_row_def)
    then show ?thesis
      using rows that by (simp add: cached_or_computed_def torch_load_TensorFile)
  qed
  have kept: "files (write_batch be names lats) (?key (fps ! i)) = Some (TensorFile v)"
    if i: "i < length fps" and f: "files be (?key (fps ! i)) = Some (TensorFile v)" for i v
  proof -
    have "\<forall>x\<in>set (zip names lats). fst x = ?key (fps ! i) \<longrightarrow> snd x = v"
    proof (intro ballI impI)
      fix x
      assume x: "x \<in> set (zip names lats)" and k: "fst x = ?key (fps ! i)"
      then obtain j where j: "j < length fps" and xj: "x = (names ! j, lats ! j)"
        using len names by (auto simp: set_zip)
      have "?key (fps ! j) = ?key (fps ! i)"
        using k xj j names by simp
      then have "files be (?key (fps ! j)) = Some (TensorFile v)"
        using f by simp
      then show "snd x = v"
        using stored[OF j] xj by simp
    qed
    then show ?thesis
      using fold_write_keeps[of "files be" "?key (fps ! i)" v "zip names lats"] f
      by (simp add: write_batch_def)
  qed
  show ?thesis
    using e names len stored kept by (intro exI[of _ names] exI[of _ lats]) simp
qed

text \<open>
  Claim C8. Whenever \<^verbatim>\<open>encode_image_batch\<close> returns, its trace is one call of the VAE on
  the whole batch, and the embedding of every item that has no cache entry is the row of
  that call's output for the item, multiplied by the scaling factor.
\<close>

theorem encode_image_batch_scales_fresh_items:
  assumes "encode_image_batch self be pvs fps = (tr, Inr (names, lats))"
    and "i < length fps"
    and "\<not> exists be (fst (generate_filename self (fps ! i)))"
  shows "tr = [VaeEncode pvs] \<and> i < length lats \<and> i < length (encode (vae self) pvs) \<and>
         lats ! i = map (\<lambda>x. x * scaling_factor (vae self)) (encode (vae self) pvs ! i)"
proof -
  note r = encode_image_batch_Inr[OF assms(1)]
  have "torch_load be (fst (generate_filename self (fps ! i))) = Inl OSError"
    using assms(3) by (simp add: exists_def torch_load_def)
  then have "cached_or_computed be (fst (generate_filename self (fps ! i))) row = row" for row
    by (simp add: cached_or_computed_def)
  then show ?thesis
    using r assms(2) by simp
qed

text \<open>
  Claim C9. \<^verbatim>\<open>encode_image\<close> is the batch path with a batch of one: it makes the calls of
  \<^verbatim>\<open>encode_image_batch\<close> on the one-element lists, raises what that call raises, and
  returns the first (and only) row of the embeddings that the call returns.
\<close>

theorem encode_image_is_batch_of_one:
  "\<exists>tr res. encode_image_batch self be [pixel_values] [filepath] = (tr, res) \<and>
     encode_image self be pixel_values filepath
       = (tr, case res of Inl e \<Rightarrow> Inl e | Inr (names, lats) \<Rightarrow> Inr (lats ! 0)) \<and>
     (case res of Inl e \<Rightarrow> True | Inr (names, lats) \<Rightarrow> length lats = 1)"
proof (cases "encode_image_batch self be [pixel_values] [filepath]")
  case (Pair tr res)
  show ?thesis
  proof (cases res)
    case (Inl e)
    then show ?thesis using Pair by (simp add: encode_image_def)
  next
    case (Inr p)
    obtain names lats where p: "p = (names, lats)" by (cases p)
    have "length lats = 1"
      using encode_image_batch_Inr[of self be "[pixel_values]" "[filepath]" tr names lats] Pair Inr p
      by simp
    then obtain l where "lats = [l]"
      by (cases lats) auto
    then show ?thesis
      using Pair Inr p by (simp add: encode_image_def)
  qed
qed



theorem encode_image_batch_existing_entry_wins_witness:
  "snd (encode_image_batch (example_cache 25 False None) cached_backend [10, 11]
          [''data/a.png'', ''data/aa.png''])
     = Inr ([''vae_cache/a.pt'', ''vae_cache/aa.pt''], [[7], [22]]) \<and>
   files cached_backend ''vae_cache/a.pt'' = Some (TensorFile [7]) \<and>
   files (write_batch cached_backend [''vae_cache/a.pt'', ''vae_cache/aa.pt''] [[7], [22]])
     ''vae_cache/a.pt'' = Some (TensorFile [7])"
proof -
  let ?self = "example_cache 25 False None"
  let ?fps = "[''data/a.png'', ''data/aa.png'']"
  have h1: "[10, 11 :: nat] \<noteq> []" by simp
  have h2: "length ?fps = length [10, 11 :: nat]" by simp
  have h3: "length (encode (vae ?self) [10, 11]) = length [10, 11 :: nat]" by code_simp
  have k: "map (\<lambda>fp. fst (generate_filename ?self fp)) ?fps = [''vae_cache/a.pt'', ''vae_cache/aa.pt'']"
    by code_simp
  have f1: "files cached_backend ''vae_cache/a.pt'' = Some (TensorFile [7])" by code_simp
  have f2: "files cached_backend ''vae_cache/aa.pt'' = None" by code_simp
  have h4: "\<forall>fp\<in>set ?fps. \<forall>r. files cached_backend (fst (generate_filename ?self fp)) \<noteq> Some (ImageFile r)"
    using k f1 f2 by simp
  have enc: "encode (vae ?self) [10, 11] = [[10], [11]]"
    by code_simp
  have h5: "\<forall>i<length ?fps. \<forall>v.
              files cached_backend (fst (generate_filename ?self (?fps ! i))) = Some (TensorFile v) \<longrightarrow>
              length v = length (encode (vae ?self) [10, 11] ! i)"
  proof (intro allI impI)
    fix i v
    assume i: "i < length ?fps"
      and f: "files cached_backend (fst (generate_filename ?self (?fps ! i))) = Some (TensorFile v)"
    from i have "i = 0 \<or> i = 1" by auto
    then show "length v = length (encode (vae ?self) [10, 11] ! i)"
      using f k f1 f2 unfolding enc by auto
  qed
  from encode_image_batch_existing_entry_wins[OF h1 h2 h3 h4 h5]
  obtain names lats where r: "snd (encode_image_batch ?self cached_backend [10, 11] ?fps) = Inr (names, lats)"
    and at0: "files cached_backend (fst (generate_filename ?self (?fps ! 0))) = Some (TensorFile [7]) \<longrightarrow>
                files (write_batch cached_backend names lats) (names ! 0) = Some (TensorFile [7])"
    by fastforce
  have e: "snd (encode_image_batch ?self cached_backend [10, 11] ?fps)
             = Inr ([''vae_cache/a.pt'', ''vae_cache/aa.pt''], [[7], [22]])"
    by code_simp
  then have "names = [''vae_cache/a.pt'', ''vae_cache/aa.pt'']" and "lats = [[7], [22]]"
    using r by simp_all
  then show ?thesis
    using e f1 at0 k by simp
qed

theorem encode_image_batch_scales_fresh_items_witness:
  "encode_image_batch (example_cache 25 False None) cached_backend [10, 11]
          [''data/a.png'', ''data/aa.png'']
     = ([VaeEncode [10, 11]], Inr ([''vae_cache/a.pt'', ''vae_cache/aa.pt''], [[7], [22]])) \<and>
   \<not> exists cached_backend (fst (generate_filename (example_cache 25 False None) ''data/aa.png'')) \<and>
   [[7], [22 :: real]] ! 1 = map (\<lambda>x. x * 2) (encode example_vae [10, 11] ! 1)"
proof -
  let ?self = "example_cache 25 False None"
  let ?fps = "[''data/a.png'', ''data/aa.png'']"
  have h1: "encode_image_batch ?self cached_backend [10, 11] ?fps
     = ([VaeEncode [10, 11]], Inr ([''vae_cache/a.pt'', ''vae_cache/aa.pt''], [[7], [22]]))"
    by code_simp
  have h2: "1 < length ?fps" by simp
  have h3: "\<not> exists cached_backend (fst (generate_filename ?self (?fps ! 1)))"
    by code_simp
  have v: "vae ?self = example_vae" "scaling_factor example_vae = 2"
    by (simp_all add: example_cache_def example_vae_def)
  from encode_image_batch_scales_fresh_items[OF h1 h2 h3] show ?thesis
    using h1 h3 v by simp
qed

theorem encode_image_is_batch_of_one_witness:
  "encode_image_batch (example_cache 25 False None) (example_backend 1) [10] [''data/a.png'']
     = ([VaeEncode [10]], Inr ([''vae_cache/a.pt''], [[20]])) \<and>
   encode_image (example_cache 25 False None) (example_backend 1) 10 ''data/a.png''
     = ([VaeEncode [10]], Inr [20])"
proof -
  have e: "encode_image_batch (example_cache 25 False None) (example_backend 1) [10] [''data/a.png'']
     = ([VaeEncode [10]], Inr ([''vae_cache/a.pt''], [[20]]))"
    by code_simp
  from encode_image_is_batch_of_one[of "example_cache 25 False None" "example_backend 1" 10 "''data/a.png''"]
  show ?thesis
    unfolding e by simp
qed

subsection \<open>Backlog discovery\<close>

lemma discover_unprocessed_files_empty:
  "discover_unprocessed_files self be directory = []"
  by (simp add: discover_unprocessed_files_def Let_def filter_empty_conv)

text \<open>
  Claim C1, at a first run: the directory \<^verbatim>\<open>data\<close> holds the image \<^verbatim>\<open>a.png\<close> and the
  cache holds nothing. The image is enumerated and its cache key has no entry, so the
  claim has \<^verbatim>\<open>discover_unprocessed_files\<close> return it. The code returns the empty list:
  line 56 builds \<^verbatim>\<open>processed_files\<close> from the source files themselves, not from the cache
  entries, and no file passes the test of line 60.
\<close>

theorem discover_unprocessed_files_first_run:
  "all_files (example_backend 1) ''data'' = [''data/a.png''] \<and>
   \<not> exists (example_backend 1) (fst (generate_filename (example_cache 25 False None) ''data/a.png'')) \<and>
   discover_unprocessed_files (example_cache 25 False None) (example_backend 1) ''data'' = []"
  by code_simp

text \<open>
  Claim C7, at a file with an upper-case extension: \<^verbatim>\<open>a.JPG\<close> matches the pattern that
  \<^verbatim>\<open>list_files\<close> is given, but \<^verbatim>\<open>discover_unprocessed_files\<close> does not enumerate it, since
  the test of line 54 is \<^verbatim>\<open>str.endswith\<close> with lower-case suffixes. The scan of
  \<^verbatim>\<open>process_directory\<close> (lines 129-137) has no such test and takes the file. The pattern
  itself never matches a name that ends in \<^verbatim>\<open>.jpeg\<close>.
\<close>

theorem all_files_drops_upper_case:
  "image_pattern_matches ''a.JPG'' \<and> \<not> image_pattern_matches ''a.jpeg'' \<and>
   all_files upper_case_backend ''data'' = [] \<and>
   scanned_files (example_cache 25 False (Some [])) upper_case_backend ''data'' = [''data/a.JPG'']"
  by code_simp

subsection \<open>The run over a directory\<close>

text \<open>
  Claim C2, at 53 decodable images and a batch size of 25: the claim has three flushes,
  of 25, 25 and 3 items. The code flushes twice; for the last three items line 181 calls
  \<^verbatim>\<open>encode_image_batch\<close> with the whole list of 53 paths in place of the three paths of
  the batch, the loop of line 87 reaches row 3 of a tensor with three rows, and the run
  ends with \<open>IndexError\<close> before the third \<^verbatim>\<open>write_batch\<close>.
\<close>

theorem process_directory_last_batch_raises:
  "run_summary (process_directory id (example_cache 25 False (Some [])) (numbered_backend 53) ''data'')
     = (Some IndexError, [25, 25])"
  by code_simp

text \<open>
  Claim C5 as stated fails: the \<^verbatim>\<open>except\<close> clause of line 163 names \<open>OSError\<close> and
  \<open>RuntimeError\<close> only, so a decode step that raises another exception (here
  \<open>ValueError\<close>) ends the run with that exception.
\<close>

theorem decode_error_propagates:
  "raised (process_directory id (example_cache 25 True (Some [])) (failing_backend ValueError) ''data'')
     = Some ValueError"
  by code_simp

text \<open>
  Claim C5, amended. For every item that has no cache entry and whose decode or normalise
  step raises \<open>OSError\<close> or \<open>RuntimeError\<close>, the loop of \<^verbatim>\<open>process_directory\<close> does not
  raise that error: it goes on with the next item, with the batch and the trace as they
  were, on the backend from which the item has been deleted if
  \<^verbatim>\<open>delete_problematic_images\<close> is set, and on the unchanged backend otherwise.
\<close>

theorem process_files_skips_failed_item:
  assumes "\<not> exists be (fst (generate_filename self filepath))"
    and "read_pixel_values be filepath = Inl e"
    and "e = OSError \<or> e = RuntimeError"
  shows "process_files self be current_batch_filepaths batch_pixel_values trace (filepath # rest)
         = process_files self (if delete_problematic_images self then delete be filepath else be)
             current_batch_filepaths batch_pixel_values trace rest
         \<and> \<not> exists (delete be filepath) filepath"
  using assms by (auto simp: Let_def exists_def delete_def)

theorem process_files_skips_failed_item_witness:
  "\<not> exists (failing_backend OSError)
       (fst (generate_filename (example_cache 25 True (Some [])) ''data/a.png'')) \<and>
   read_pixel_values (failing_backend OSError) ''data/a.png'' = Inl OSError \<and>
   (case process_files (example_cache 25 True (Some [])) (failing_backend OSError) [] [] []
           [''data/a.png'', ''data/aa.png''] of
      (status, be', filepaths, pixel_values, trace) \<Rightarrow>
        status = None \<and> filepaths = [''data/aa.png''] \<and> pixel_values = [11] \<and> trace = [] \<and>
        files be' ''data/a.png'' = None)"
proof -
  let ?self = "example_cache 25 True (Some [])"
  have h1: "\<not> exists (failing_backend OSError) (fst (generate_filename ?self ''data/a.png''))"
    by code_simp
  have h2: "read_pixel_values (failing_backend OSError) ''data/a.png'' = Inl OSError"
    by code_simp
  have h3: "OSError = OSError \<or> OSError = RuntimeError"
    by simp
  have step: "process_files ?self (failing_backend OSError) [] [] [] [''data/a.png'', ''data/aa.png'']
      = process_files ?self (if delete_problematic_images ?self
                             then delete (failing_backend OSError) ''data/a.png''
                             else failing_backend OSError) [] [] [] [''data/aa.png'']"
    using process_files_skips_failed_item[OF h1 h2 h3, of "[]" "[]" "[]" "[''data/aa.png'']"] by simp
  have rest: "(case process_files ?self (if delete_problematic_images ?self
                             then delete (failing_backend OSError) ''data/a.png''
                             else failing_backend OSError) [] [] [] [''data/aa.png''] of
      (status, be', filepaths, pixel_values, trace) \<Rightarrow>
        status = None \<and> filepaths = [''data/aa.png''] \<and> pixel_values = [11] \<and> trace = [] \<and>
        files be' ''data/a.png'' = None)"
    by code_simp
  show ?thesis
    using h1 h2 rest unfolding step by simp
qed

lemma process_directory_obj:
  assumes "local_unprocessed_files self = Some local_files"
  shows "obj (process_directory shuffle self be directory)
         = self\<lparr>local_unprocessed_files :=
                  Some (shuffle (local_files @ scanned_files self be directory))\<rparr>"
  using assms
  by (simp add: process_directory_def files_to_process_def Let_def
      split: prod.splits option.splits sum.splits)




subsection \<open>Two runs in succession\<close>

lemma fold_write_other:
  "p \<notin> fst ` set ps \<Longrightarrow>
   fold (\<lambda>(path, payload) m. m(path \<mapsto> TensorFile payload)) ps m p = m p"
  by (induction ps arbitrary: m) (auto split: prod.splits)

lemma fold_write_tensor:
  "p \<in> fst ` set ps \<or> (\<exists>v. m p = Some (TensorFile v)) \<Longrightarrow>
   \<exists>v. fold (\<lambda>(path, payload) m. m(path \<mapsto> TensorFile payload)) ps m p = Some (TensorFile v)"
proof (induction ps arbitrary: m)
  case Nil
  then show ?case by simp
next
  case (Cons x ps)
  obtain a b where x: "x = (a, b)" by (cases x)
  have "p \<in> fst ` set ps \<or> (\<exists>v. (m(a \<mapsto> TensorFile b)) p = Some (TensorFile v))"
    using Cons.prems x by auto
  then show ?case
    using Cons.IH[of "m(a \<mapsto> TensorFile b)"] x by simp
qed

lemma write_batch_other:
  "p \<notin> set names \<Longrightarrow> files (write_batch be names lats) p = files be p"
proof -
  assume "p \<notin> set names"
  then have "p \<notin> fst ` set (zip names lats)"
    by (auto dest: set_zip_leftD)
  then show ?thesis
    by (simp add: write_batch_def fold_write_other)
qed

lemma write_batch_exists:
  assumes "length names = length lats" and "p \<in> set names"
  shows "exists (write_batch be names lats) p"
proof -
  have "fst ` set (zip names lats) = set names"
    using assms(1) by (metis map_fst_zip set_map)
  then have "p \<in> fst ` set (zip names lats)"
    using assms(2) by simp
  then have "\<exists>v. fold (\<lambda>(path, payload) m. m(path \<mapsto> TensorFile payload)) (zip names lats) (files be) p
               = Some (TensorFile v)"
    by (intro fold_write_tensor) simp
  then show ?thesis
    by (auto simp: exists_def write_batch_def)
qed

lemma write_batch_exists_mono:
  assumes "length names = length lats" and "exists be p"
  shows "exists (write_batch be names lats) p"
proof (cases "p \<in> set names")
  case True
  then show ?thesis using assms(1) by (rule write_batch_exists[rotated])
next
  case False
  then show ?thesis using assms(2) by (simp add: exists_def write_batch_other)
qed

lemma write_batch_list_files: "list_files (write_batch be names lats) = list_files be"
  by (simp add: write_batch_def)

lemma settled_delete:
  assumes "settled self be g" and "\<forall>h. f \<noteq> cache_key self h"
  shows "settled self (delete be f) g"
proof -
  have k: "cache_key self g \<noteq> f" using assms(2) by metis
  show ?thesis
  proof (cases "g = f")
    case True
    then show ?thesis
      by (simp add: settled_def read_pixel_values_def delete_def)
  next
    case False
    then show ?thesis
      using assms(1) k by (simp add: settled_def read_pixel_values_def delete_def exists_def)
  qed
qed

lemma settled_delete_self: "settled self (delete be f) f"
  by (simp add: settled_def read_pixel_values_def delete_def)

lemma settled_write_batch:
  assumes "settled self be g" and "\<forall>h. g \<noteq> cache_key self h"
    and "length names = length lats" and "names = map (cache_key self) fps"
  shows "settled self (write_batch be names lats) g"
proof -
  have "g \<notin> set names" using assms(2,4) by auto
  then have "read_pixel_values (write_batch be names lats) g = read_pixel_values be g"
    by (simp add: read_pixel_values_def write_batch_other)
  moreover have "exists be (cache_key self g) \<Longrightarrow> exists (write_batch be names lats) (cache_key self g)"
    using assms(3) by (rule write_batch_exists_mono)
  ultimately show ?thesis
    using assms(1) by (auto simp: settled_def)
qed

lemma settled_written:
  assumes "length names = length lats" and "names = map (cache_key self) fps" and "g \<in> set fps"
  shows "settled self (write_batch be names lats) g"
proof -
  have "cache_key self g \<in> set names" using assms(2,3) by simp
  then have "exists (write_batch be names lats) (cache_key self g)"
    using assms(1) by (rule write_batch_exists[rotated])
  then show ?thesis by (simp add: settled_def)
qed

lemma process_files_settled:
  assumes "\<forall>f\<in>set W. settled self be f"
    and "\<forall>f\<in>set W. \<forall>h. f \<noteq> cache_key self h"
  shows "\<exists>be'. process_files self be fps pvs tr W = (None, be', fps, pvs, tr) \<and>
               (\<forall>p. p \<notin> set W \<longrightarrow> files be' p = files be p)"
  using assms
proof (induction W arbitrary: be)
  case Nil
  then show ?case by simp
next
  case (Cons f W)
  have nk: "\<forall>h. f \<noteq> cache_key self h" and nkW: "\<forall>f\<in>set W. \<forall>h. f \<noteq> cache_key self h"
    using Cons.prems(2) by simp_all
  have sW: "\<forall>g\<in>set W. settled self be g" and sf: "settled self be f"
    using Cons.prems(1) by simp_all
  show ?case
  proof (cases "exists be (cache_key self f)")
    case True
    from Cons.IH[OF sW nkW] obtain be'
      where "process_files self be fps pvs tr W = (None, be', fps, pvs, tr)"
        and "\<forall>p. p \<notin> set W \<longrightarrow> files be' p = files be p"
      by blast
    then show ?thesis
      using True by (intro exI[of _ be']) (simp add: Let_def)
  next
    case False
    then obtain e where e: "read_pixel_values be f = Inl e" "e = OSError \<or> e = RuntimeError"
      using sf by (auto simp: settled_def split: sum.splits)
    let ?be = "if delete_problematic_images self then delete be f else be"
    have "\<forall>g\<in>set W. settled self ?be g"
      using sW nk by (auto intro: settled_delete)
    from Cons.IH[OF this nkW] obtain be'
      where r: "process_files self ?be fps pvs tr W = (None, be', fps, pvs, tr)"
        and o: "\<forall>p. p \<notin> set W \<longrightarrow> files be' p = files ?be p"
      by blast
    have "\<forall>p. p \<notin> set (f # W) \<longrightarrow> files be' p = files be p"
      using o by (auto simp: delete_def)
    moreover have "process_files self be fps pvs tr (f # W) = (None, be', fps, pvs, tr)"
      using False e r by (auto simp: Let_def)
    ultimately show ?thesis
      by blast
  qed
qed

lemma process_files_invariant:
  assumes "process_files self be fps pvs tr W = (None, be', fps', pvs', tr')"
    and "\<forall>f\<in>S \<union> set W. \<forall>h. f \<noteq> cache_key self h"
    and "\<forall>f\<in>S. settled self be f \<or> f \<in> set fps"
    and "length fps = length pvs"
  shows "(\<forall>f\<in>S \<union> set W. settled self be' f \<or> f \<in> set fps') \<and> length fps' = length pvs'"
  using assms
proof (induction W arbitrary: be fps pvs tr S)
  case Nil
  then show ?case by simp
next
  case (Cons f W)
  let ?S = "insert f S"
  have nk: "\<forall>h. f \<noteq> cache_key self h"
    using Cons.prems(2) by simp
  have nkS: "\<forall>g\<in>?S \<union> set W. \<forall>h. g \<noteq> cache_key self h"
    using Cons.prems(2) by simp
  have nkg: "\<And>g. g \<in> S \<Longrightarrow> \<forall>h. g \<noteq> cache_key self h"
    using Cons.prems(2) by simp
  have goal: "(\<forall>g\<in>?S \<union> set W. settled self be' g \<or> g \<in> set fps') \<and> length fps' = length pvs'
               \<Longrightarrow> ?case"
    by simp
  show ?case
  proof (cases "exists be (cache_key self f)")
    case True
    then have run: "process_files self be fps pvs tr W = (None, be', fps', pvs', tr')"
      using Cons.prems(1) by (simp add: Let_def)
    have "settled self be f" using True by (simp add: settled_def)
    then have inv: "\<forall>g\<in>?S. settled self be g \<or> g \<in> set fps"
      using Cons.prems(3) by simp
    show ?thesis
      by (rule goal) (rule Cons.IH[OF run nkS inv Cons.prems(4)])
  next
    case False
    show ?thesis
    proof (cases "read_pixel_values be f")
      case (Inl e)
      then have caught: "e = OSError \<or> e = RuntimeError"
        using Cons.prems(1) False by (auto simp: Let_def split: if_splits)
      let ?be = "if delete_problematic_images self then delete be f else be"
      have run: "process_files self ?be fps pvs tr W = (None, be', fps', pvs', tr')"
        using Cons.prems(1) False Inl caught by (auto simp: Let_def)
      have "settled self be f"
        using Inl caught by (simp add: settled_def)
      then have "settled self ?be f"
        by (simp add: settled_delete_self)
      moreover have "\<forall>g\<in>S. settled self ?be g \<or> g \<in> set fps"
        using Cons.prems(3) nk by (auto intro: settled_delete)
      ultimately have inv: "\<forall>g\<in>?S. settled self ?be g \<or> g \<in> set fps"
        by simp
      show ?thesis
        by (rule goal) (rule Cons.IH[OF run nkS inv Cons.prems(4)])
    next
      case (Inr pv)
      show ?thesis
      proof (cases "int (length (pvs @ [pv])) = write_batch_size self")
        case full: True
        obtain tr0 res where enc: "encode_image_batch self be (pvs @ [pv]) (fps @ [f]) = (tr0, res)"
          by (cases "encode_image_batch self be (pvs @ [pv]) (fps @ [f])")
        show ?thesis
        proof (cases res)
          case (Inl e)
          then have False
            using Cons.prems(1) \<open>\<not> exists be (cache_key self f)\<close> Inr full enc
            by (simp add: Let_def)
          then show ?thesis ..
        next
          case res: (Inr p)
          obtain names lats where p: "p = (names, lats)" by (cases p)
          have e: "encode_image_batch self be (pvs @ [pv]) (fps @ [f]) = (tr0, Inr (names, lats))"
            using enc res p by simp
          have names: "names = map (cache_key self) (fps @ [f])"
            and len: "length names = length lats"
            using encode_image_batch_Inr[OF e] by simp_all
          let ?be = "write_batch be names lats"
          have run: "process_files self ?be [] [] (tr @ tr0 @ [WriteBatch names lats]) W
                     = (None, be', fps', pvs', tr')"
            using Cons.prems(1) \<open>\<not> exists be (cache_key self f)\<close> Inr full e
            by (simp add: Let_def)
          have inv: "\<forall>g\<in>?S. settled self ?be g \<or> g \<in> set []"
          proof
            fix g
            assume g: "g \<in> ?S"
            have "settled self ?be g"
            proof (cases "g \<in> set (fps @ [f])")
              case True
              with len names show ?thesis by (rule settled_written)
            next
              case False
              then have gS: "g \<in> S" and sg: "settled self be g"
                using g Cons.prems(3) by auto
              show ?thesis
                using sg nkg[OF gS] len names by (rule settled_write_batch)
            qed
            then show "settled self ?be g \<or> g \<in> set []" ..
          qed
          have l0: "length ([] :: string list) = length ([] :: 'a list)" by simp
          show ?thesis
            by (rule goal) (rule Cons.IH[OF run nkS inv l0])
        qed
      next
        case part: False
        have run: "process_files self be (fps @ [f]) (pvs @ [pv]) tr W = (None, be', fps', pvs', tr')"
          using Cons.prems(1) \<open>\<not> exists be (cache_key self f)\<close> Inr part by (simp add: Let_def)
        have inv: "\<forall>g\<in>?S. settled self be g \<or> g \<in> set (fps @ [f])"
          using Cons.prems(3) by auto
        have l: "length (fps @ [f]) = length (pvs @ [pv])"
          using Cons.prems(4) by simp
        show ?thesis
          by (rule goal) (rule Cons.IH[OF run nkS inv l])
      qed
    qed
  qed
qed

lemma generate_filename_local [simp]:
  "generate_filename (self\<lparr>local_unprocessed_files := x\<rparr>) filepath = generate_filename self filepath"
  by (simp add: generate_filename_def)

lemma settled_local [simp]:
  "settled (self\<lparr>local_unprocessed_files := x\<rparr>) be filepath = settled self be filepath"
  by (simp add: settled_def)

lemma settled_list_files [simp]:
  "settled self (be\<lparr>list_files := l\<rparr>) filepath = settled self be filepath"
  by (simp add: settled_def exists_def read_pixel_values_def)

lemma scanned_files_local [simp]:
  "scanned_files (self\<lparr>local_unprocessed_files := x\<rparr>) be directory = scanned_files self be directory"
  by (simp add: scanned_files_def existing_pt_files_def)

lemma process_directory_settles:
  assumes wl: "files_to_process shuffle self be directory = Some worklist"
    and ok: "raised (process_directory shuffle self be directory) = None"
    and nokey: "\<forall>f\<in>set worklist. \<forall>h. f \<noteq> cache_key self h"
  shows "\<forall>f\<in>set worklist. settled self (store (process_directory shuffle self be directory)) f"
proof -
  let ?self = "self\<lparr>local_unprocessed_files := Some worklist\<rparr>"
  obtain st be1 fps1 pvs1 tr1
    where loop: "process_files ?self be [] [] [] worklist = (st, be1, fps1, pvs1, tr1)"
    by (cases "process_files ?self be [] [] [] worklist") auto
  have st: "st = None"
    using ok wl loop by (cases st) (simp_all add: process_directory_def Let_def)
  have nk: "\<forall>f\<in>{} \<union> set worklist. \<forall>h. f \<noteq> cache_key ?self h"
    using nokey by simp
  have inv0: "\<forall>f\<in>{}. settled ?self be f \<or> f \<in> set []"
    by simp
  have l0: "length ([] :: string list) = length ([] :: 'a list)" by simp
  from process_files_invariant[OF loop[unfolded st] nk inv0 l0]
  have inv: "\<forall>f\<in>set worklist. settled self be1 f \<or> f \<in> set fps1"
    and len: "length fps1 = length pvs1"
    by simp_all
  show ?thesis
  proof (cases "pvs1 = []")
    case True
    then have "store (process_directory shuffle self be directory) = be1"
      using wl loop st by (simp add: process_directory_def Let_def)
    moreover have "fps1 = []" using True len by simp
    ultimately show ?thesis using inv by simp
  next
    case False
    obtain tr0 res where enc: "encode_image_batch ?self be1 pvs1 worklist = (tr0, res)"
      by (cases "encode_image_batch ?self be1 pvs1 worklist")
    show ?thesis
    proof (cases res)
      case (Inl e)
      then have "raised (process_directory shuffle self be directory) = Some e"
        using wl loop st False enc by (simp add: process_directory_def Let_def)
      then show ?thesis using ok by simp
    next
      case (Inr p)
      obtain names lats where p: "p = (names, lats)" by (cases p)
      have e: "encode_image_batch ?self be1 pvs1 worklist = (tr0, Inr (names, lats))"
        using enc Inr p by simp
      have names: "names = map (cache_key self) worklist" and l: "length names = length lats"
        using encode_image_batch_Inr[OF e] by simp_all
      have "store (process_directory shuffle self be directory) = write_batch be1 names lats"
        using wl loop st False e by (simp add: process_directory_def Let_def)
      then show ?thesis
        using settled_written[OF l names] by simp
    qed
  qed
qed

lemma process_directory_all_settled:
  assumes wl: "files_to_process shuffle self be directory = Some worklist"
    and all: "\<forall>f\<in>set worklist. settled self be f"
    and nokey: "\<forall>f\<in>set worklist. \<forall>h. f \<noteq> cache_key self h"
  shows "raised (process_directory shuffle self be directory) = None \<and>
         calls (process_directory shuffle self be directory) = [] \<and>
         (\<forall>p. p \<notin> set worklist \<longrightarrow>
              files (store (process_directory shuffle self be directory)) p = files be p)"
proof -
  let ?self = "self\<lparr>local_unprocessed_files := Some worklist\<rparr>"
  have s: "\<forall>f\<in>set worklist. settled ?self be f" using all by simp
  have nk: "\<forall>f\<in>set worklist. \<forall>h. f \<noteq> cache_key ?self h" using nokey by simp
  from process_files_settled[OF s nk, of "[]" "[]" "[]"] obtain be'
    where loop: "process_files ?self be [] [] [] worklist = (None, be', [], [], [])"
      and other: "\<forall>p. p \<notin> set worklist \<longrightarrow> files be' p = files be p"
    by blast
  show ?thesis
    using wl loop other by (simp add: process_directory_def Let_def)
qed

lemma process_directory_raised_None:
  assumes "raised (process_directory shuffle self be directory) = None"
  shows "\<exists>worklist. files_to_process shuffle self be directory = Some worklist"
  using assms by (cases "files_to_process shuffle self be directory") (simp_all add: process_directory_def)

lemma cache_key_last: "last (cache_key self g) = CHR ''t''"
  by (simp add: generate_filename_eq spec_cache_key_def under_root_def)

text \<open>
  Claim C4. Let a run of \<^verbatim>\<open>process_directory\<close> return without an exception, and let
  \<open>worklist\<close> be the list it went through (the attribute holds it afterwards), none of
  whose items is itself a cache key. Let a second run start on the backend as the first
  run left it, whatever listing the backend reports then, from the same object or after
  a new split, such that neither the slice nor the second scan brings an item that the
  first list did not hold (the source set is unchanged). Then the second run returns
  without an exception, it calls neither the VAE nor \<^verbatim>\<open>write_batch\<close>, and it leaves
  every cache entry as the first run left it: each item is skipped at the existence
  check of line 152, or its decode step fails again and is skipped.
\<close>

theorem second_run_encodes_nothing:
  assumes first: "process_directory shuffle self be directory = r1"
    and completes: "raised r1 = None"
    and worklist: "local_unprocessed_files (obj r1) = Some worklist"
    and sources: "\<forall>f\<in>set worklist. \<forall>g. f \<noteq> cache_key self g"
    and slice: "set local_files' \<subseteq> set worklist"
    and perm: "\<forall>xs. set (shuffle' xs) = set xs"
    and unchanged:
      "set (scanned_files self ((store r1)\<lparr>list_files := listing'\<rparr>) directory) \<subseteq> set worklist"
    and second:
      "process_directory shuffle' ((obj r1)\<lparr>local_unprocessed_files := Some local_files'\<rparr>)
         ((store r1)\<lparr>list_files := listing'\<rparr>) directory = r2"
  shows "raised r2 = None \<and> calls r2 = [] \<and>
         (\<forall>g. files (store r2) (cache_key self g) = files (store r1) (cache_key self g))"
proof -
  let ?be2 = "(store r1)\<lparr>list_files := listing'\<rparr>"
  let ?W2 = "shuffle' (local_files' @ scanned_files self ?be2 directory)"
  obtain w where w: "files_to_process shuffle self be directory = Some w"
    using process_directory_raised_None first completes by blast
  then obtain local_files where lf: "local_unprocessed_files self = Some local_files"
    and w': "w = shuffle (local_files @ scanned_files self be directory)"
    by (auto simp: files_to_process_def)
  have obj1: "obj r1 = self\<lparr>local_unprocessed_files := Some w\<rparr>"
    using process_directory_obj[OF lf, of shuffle be directory] first w' by simp
  then have "w = worklist"
    using worklist by simp
  then have wl: "files_to_process shuffle self be directory = Some worklist"
    using w by simp
  let ?self2 = "self\<lparr>local_unprocessed_files := Some local_files'\<rparr>"
  have self2: "(obj r1)\<lparr>local_unprocessed_files := Some local_files'\<rparr> = ?self2"
    using obj1 by simp
  have settled1: "\<forall>f\<in>set worklist. settled self (store r1) f"
    using process_directory_settles[OF wl _ sources] first completes by simp
  have sub: "set ?W2 \<subseteq> set worklist"
    using perm slice unchanged by simp
  have wl2: "files_to_process shuffle' ?self2 ?be2 directory = Some ?W2"
    by (simp add: files_to_process_def)
  have s2: "\<forall>f\<in>set ?W2. settled ?self2 ?be2 f"
    using settled1 sub by auto
  have nk2: "\<forall>f\<in>set ?W2. \<forall>h. f \<noteq> cache_key ?self2 h"
    using sources sub by auto
  note run2 = process_directory_all_settled[OF wl2 s2 nk2]
  have r2: "r2 = process_directory shuffle' ?self2 ?be2 directory"
    using second self2 by simp
  have "files (store r2) (cache_key self g) = files (store r1) (cache_key self g)" for g
  proof -
    have "cache_key self g \<notin> set ?W2"
      using sources sub by blast
    then have "files (store r2) (cache_key self g) = files ?be2 (cache_key self g)"
      using run2 r2 by simp
    then show ?thesis by simp
  qed
  then show ?thesis
    using run2 r2 by simp
qed

theorem second_run_encodes_nothing_witness:
  "raised example_first_run = None \<and>
   files (store example_first_run) ''vae_cache/aa.pt'' = Some (TensorFile [22]) \<and>
   raised example_second_run = None \<and> calls example_second_run = [] \<and>
   files (store example_second_run) ''vae_cache/aa.pt'' = Some (TensorFile [22])"
proof -
  let ?self = "split_cache_between_processes id (example_cache 2 False None) (example_backend 2)"
  let ?W = "[''data/00.png'']"
  have first: "process_directory id ?self (example_backend 2) ''data'' = example_first_run"
    by (simp add: example_first_run_def)
  have completes: "raised example_first_run = None"
    by code_simp
  have worklist: "local_unprocessed_files (obj example_first_run) = Some [''data/a.png'', ''data/aa.png'']"
    by code_simp
  have sources: "\<forall>f\<in>set [''data/a.png'', ''data/aa.png'']. \<forall>g. f \<noteq> cache_key ?self g"
  proof (intro ballI allI notI)
    fix f g
    assume "f \<in> set [''data/a.png'', ''data/aa.png'']" and "f = cache_key ?self g"
    then have "last f = CHR ''g''" and "last f = CHR ''t''"
      using cache_key_last[of ?self g] by auto
    then show False by simp
  qed
  have slice: "set ([] :: string list) \<subseteq> set [''data/a.png'', ''data/aa.png'']"
    by simp
  have perm: "\<forall>xs :: string list. set (rev xs) = set xs"
    by simp
  have be2: "(store example_first_run)\<lparr>list_files := list_files (store example_first_run)\<rparr>
             = store example_first_run"
    by simp
  have scan: "scanned_files ?self (store example_first_run) ''data'' = [''data/a.png'', ''data/aa.png'']"
    by code_simp
  have unchanged: "set (scanned_files ?self
        ((store example_first_run)\<lparr>list_files := list_files (store example_first_run)\<rparr>) ''data'')
      \<subseteq> set [''data/a.png'', ''data/aa.png'']"
    unfolding be2 scan by simp
  have resplit: "split_cache_between_processes id (obj example_first_run) (store example_first_run)
                 = (obj example_first_run)\<lparr>local_unprocessed_files := Some []\<rparr>"
    by (simp add: split_cache_between_processes_def discover_unprocessed_files_empty)
  have second: "process_directory rev ((obj example_first_run)\<lparr>local_unprocessed_files := Some []\<rparr>)
         ((store example_first_run)\<lparr>list_files := list_files (store example_first_run)\<rparr>) ''data''
       = example_second_run"
    unfolding be2 by (simp add: example_second_run_def resplit)
  have key: "cache_key ?self ''data/aa.png'' = ''vae_cache/aa.pt''"
    by code_simp
  have stored: "files (store example_first_run) ''vae_cache/aa.pt'' = Some (TensorFile [22])"
    by code_simp
  from second_run_encodes_nothing[OF first completes worklist sources slice perm unchanged second]
  have "raised example_second_run = None" and "calls example_second_run = []"
    and "files (store example_second_run) (cache_key ?self ''data/aa.png'')
         = files (store example_first_run) (cache_key ?self ''data/aa.png'')"
    by simp_all
  then show ?thesis
    using completes stored key by simp
qed

end
